theory Spec2Isabelle
  imports Complex_Main
begin

section \<open>Escape the Qubits: the gameplay state machine\<close>

text \<open>
  The theory embeds the gameplay core of \<^verbatim>\<open>escape_qubits.py\<close>: the class
  \<^verbatim>\<open>Qubit\<close> and the methods \<^verbatim>\<open>reset\<close>, \<^verbatim>\<open>spawn_qubit\<close>, \<^verbatim>\<open>try_move\<close> and
  \<^verbatim>\<open>update\<close> of the class \<^verbatim>\<open>Game\<close>. Rendering and event polling are left out.

  Conventions of the embedding:
  \<^item> times are \<open>real\<close> numbers. The operations of \<^verbatim>\<open>Game\<close> use the queries \<open>age\<close> and
    \<open>is_alive\<close> in exact arithmetic. The class \<^verbatim>\<open>Qubit\<close> is also given with the rounding
    of Python's \<^verbatim>\<open>float\<close> operations explicit (\<open>age_fl\<close>, \<open>is_alive_fl\<close>, \<open>alpha\<close>), and the
    properties of its queries are proved of that form. Infinities and NaN are not
    modelled;
  \<^item> every reading of the clock (\<^verbatim>\<open>time.time()\<close>) is a parameter \<open>now\<close> of the
    operation that reads it;
  \<^item> every use of the random source is a parameter: \<open>draws i\<close> is the pair that
    \<^verbatim>\<open>random.randrange(GRID_COLS)\<close>, \<^verbatim>\<open>random.randrange(GRID_ROWS)\<close> return in the
    iteration of the spawn loop that starts with \<^verbatim>\<open>tries == i\<close>, and \<open>u\<close> is the value
    that \<^verbatim>\<open>random.uniform(SPAWN_INTERVAL_MIN, SPAWN_INTERVAL_MAX)\<close> returns;
  \<^item> the mutable object \<^verbatim>\<open>self\<close> is a record that each method takes and returns.
\<close>

subsection \<open>Configuration\<close>

definition GRID_COLS :: int where
  "GRID_COLS = 10"

definition GRID_ROWS :: int where
  "GRID_ROWS = 10"

definition TOTAL_TIME :: real where
  "TOTAL_TIME = 45"

definition MAX_ACTIVE_QUBITS :: nat where
  "MAX_ACTIVE_QUBITS = 6"

definition SPAWN_INTERVAL_MIN :: real where
  "SPAWN_INTERVAL_MIN = 4 / 10"

definition SPAWN_INTERVAL_MAX :: real where
  "SPAWN_INTERVAL_MAX = 11 / 10"

definition QUBIT_LIFETIME :: real where
  "QUBIT_LIFETIME = 12 / 10"

subsection \<open>The class Qubit\<close>

datatype py_error = ZeroDivisionError

record Qubit =
  grid_pos :: "int \<times> int"
  spawn_time :: real
  lifetime :: real

text \<open>\<^verbatim>\<open>Qubit.__init__(grid_pos, spawn_time, lifetime=QUBIT_LIFETIME)\<close>; the only call
  of the program, in \<^verbatim>\<open>spawn_qubit\<close>, leaves the third argument to its default.\<close>

definition Qubit_init :: "int \<times> int \<Rightarrow> real \<Rightarrow> real \<Rightarrow> Qubit" where
  "Qubit_init p t l = \<lparr>grid_pos = p, spawn_time = t, lifetime = l\<rparr>"

definition age :: "Qubit \<Rightarrow> real \<Rightarrow> real" where
  "age q now = now - spawn_time q"

definition is_alive :: "Qubit \<Rightarrow> real \<Rightarrow> bool" where
  "is_alive q now = (age q now < lifetime q)"

text \<open>Python's \<^verbatim>\<open>int(x)\<close> on a float truncates towards zero.\<close>

definition py_int :: "real \<Rightarrow> int" where
  "py_int x = (if 0 \<le> x then \<lfloor>x\<rfloor> else \<lceil>x\<rceil>)"

subsection \<open>The class Qubit in float arithmetic\<close>

text \<open>
  A Python \<^verbatim>\<open>float\<close> is an IEEE double, and each of the operations \<^verbatim>\<open>-\<close>, \<^verbatim>\<open>/\<close> and \<^verbatim>\<open>*\<close>
  on floats returns the exact result rounded to a double. In the definitions below the
  rounding is the parameter \<open>rnd\<close>, applied after every float operation of the source.

  \<open>double_round\<close> is the rounding of doubles: to the nearest number with a significand
  of 53 bits, a tie going to the even significand. The exponent range is taken to be
  unbounded, so there is no overflow to infinity and there are no subnormal numbers.
\<close>

definition round_even :: "real \<Rightarrow> int" where
  "round_even x =
     (let f = \<lfloor>x\<rfloor> in
      if x - of_int f < 1 / 2 then f
      else if 1 / 2 < x - of_int f then f + 1
      else if even f then f else f + 1)"

definition double_round :: "real \<Rightarrow> real" where
  "double_round x =
     (if x = 0 then 0
      else
        let e = \<lfloor>log 2 \<bar>x\<bar>\<rfloor>;
            ulp = 2 powr of_int (e - 52)
        in ulp * of_int (round_even (x / ulp)))"

text \<open>What the properties below use of a rounding: it is monotone, it returns 1 and 255
  unchanged, and its relative error is at most \<open>eps\<close>, for some \<open>eps\<close> up to 1/8.\<close>

definition float_rounding :: "real \<Rightarrow> (real \<Rightarrow> real) \<Rightarrow> bool" where
  "float_rounding eps rnd =
     (0 \<le> eps \<and> eps \<le> 1 / 8 \<and>
      (\<forall>x y. x \<le> y \<longrightarrow> rnd x \<le> rnd y) \<and>
      rnd 1 = 1 \<and> rnd 255 = 255 \<and>
      (\<forall>x. \<bar>rnd x - x\<bar> \<le> eps * \<bar>x\<bar>))"

text \<open>\<^verbatim>\<open>age\<close>: the float subtraction \<^verbatim>\<open>now - self.spawn_time\<close>.\<close>

definition age_fl :: "(real \<Rightarrow> real) \<Rightarrow> Qubit \<Rightarrow> real \<Rightarrow> real" where
  "age_fl rnd q now = rnd (now - spawn_time q)"

definition is_alive_fl :: "(real \<Rightarrow> real) \<Rightarrow> Qubit \<Rightarrow> real \<Rightarrow> bool" where
  "is_alive_fl rnd q now = (age_fl rnd q now < lifetime q)"

text \<open>\<^verbatim>\<open>alpha\<close>: the float division \<^verbatim>\<open>a / self.lifetime\<close>, which raises
  \<^verbatim>\<open>ZeroDivisionError\<close> for a lifetime of 0, the clamp by \<^verbatim>\<open>max\<close> and \<^verbatim>\<open>min\<close>, the float
  subtraction \<^verbatim>\<open>1.0 - frac\<close>, the float multiplication by 255 and the truncation by
  \<^verbatim>\<open>int\<close>.\<close>

definition alpha :: "(real \<Rightarrow> real) \<Rightarrow> Qubit \<Rightarrow> real \<Rightarrow> py_error + int" where
  "alpha rnd q now =
     (let a = age_fl rnd q now in
      if lifetime q = 0 then Inl ZeroDivisionError
      else
        let frac = max 0 (min 1 (rnd (a / lifetime q)))
        in Inr (py_int (rnd (255 * rnd (1 - frac)))))"

subsection \<open>The class Game\<close>

record Game =
  start :: "int \<times> int"
  goal :: "int \<times> int"
  player :: "int \<times> int"
  qubits :: "Qubit list"
  start_time :: real
  next_spawn_time :: real
  running :: bool
  win :: bool
  lose :: bool
  pause :: bool

definition reset :: "Game \<Rightarrow> real \<Rightarrow> real \<Rightarrow> Game" where
  "reset g now u =
     g\<lparr>player := start g,
       qubits := [],
       start_time := now,
       next_spawn_time := now + u,
       running := True,
       win := False,
       lose := False,
       pause := False\<rparr>"

text \<open>\<^verbatim>\<open>Game.__init__\<close> assigns \<^verbatim>\<open>start\<close> and \<^verbatim>\<open>goal\<close> and calls \<^verbatim>\<open>reset\<close>. The
  attributes that \<^verbatim>\<open>reset\<close> assigns do not exist before that call; the values written
  for them below are all overwritten by \<open>reset\<close>.\<close>

definition Game_init :: "real \<Rightarrow> real \<Rightarrow> Game" where
  "Game_init now u =
     reset \<lparr>start = (0, GRID_ROWS - 1), goal = (GRID_COLS - 1, 0),
            player = (0, 0), qubits = [], start_time = 0, next_spawn_time = 0,
            running = False, win = False, lose = False, pause = False\<rparr> now u"

text \<open>The test \<^verbatim>\<open>q.grid_pos == p and q.is_alive(now)\<close> over the list of qubits, as the
  loops of \<^verbatim>\<open>try_move\<close> and \<^verbatim>\<open>update\<close> and the \<^verbatim>\<open>any(...)\<close> of \<^verbatim>\<open>spawn_qubit\<close> run
  it: from the front, stopping at the first hit.\<close>

fun collides :: "Qubit list \<Rightarrow> int \<times> int \<Rightarrow> real \<Rightarrow> bool" where
  "collides [] p now = False"
| "collides (q # qs) p now =
     (if grid_pos q = p \<and> is_alive q now then True else collides qs p now)"

text \<open>The \<^verbatim>\<open>while tries < 50\<close> loop of \<^verbatim>\<open>spawn_qubit\<close>. Each iteration that does not
  return adds one to \<^verbatim>\<open>tries\<close>, so the iteration entered with \<^verbatim>\<open>tries == i\<close> reads the
  draw \<open>draws i\<close>.\<close>

function spawn_loop :: "(nat \<Rightarrow> int \<times> int) \<Rightarrow> Game \<Rightarrow> real \<Rightarrow> nat \<Rightarrow> Game" where
  "spawn_loop draws g now tries =
     (if tries < 50 then
        let candidate = draws tries in
        if candidate = goal g then spawn_loop draws g now (tries + 1)
        else if collides (qubits g) candidate now then spawn_loop draws g now (tries + 1)
        else g\<lparr>qubits := qubits g @ [Qubit_init candidate now QUBIT_LIFETIME]\<rparr>
      else g)"
  by pat_completeness auto
termination
  by (relation "measure (\<lambda>(draws, g, now, tries). 50 - tries)") auto

declare spawn_loop.simps [simp del]

definition spawn_qubit :: "(nat \<Rightarrow> int \<times> int) \<Rightarrow> Game \<Rightarrow> real \<Rightarrow> Game" where
  "spawn_qubit draws g now =
     (if length (qubits g) \<ge> MAX_ACTIVE_QUBITS then g
      else spawn_loop draws g now 0)"

definition try_move :: "Game \<Rightarrow> int \<Rightarrow> int \<Rightarrow> real \<Rightarrow> Game" where
  "try_move g dx dy now =
     (if \<not> (running g \<and> \<not> pause g) then g
      else
        let new_c = fst (player g) + dx;
            new_r = snd (player g) + dy
        in
          if 0 \<le> new_c \<and> new_c < GRID_COLS \<and> 0 \<le> new_r \<and> new_r < GRID_ROWS then
            let g1 = g\<lparr>player := (new_c, new_r)\<rparr> in
            if collides (qubits g1) (player g1) now
            then g1\<lparr>lose := True, running := False\<rparr>
            else if player g1 = goal g1
            then g1\<lparr>win := True, running := False\<rparr>
            else g1
          else g)"

text \<open>In the loop of \<^verbatim>\<open>update\<close> the test has the further conjunct \<^verbatim>\<open>self.running\<close>,
  which no iteration changes before the loop returns.\<close>

definition update :: "Game \<Rightarrow> real \<Rightarrow> (nat \<Rightarrow> int \<times> int) \<Rightarrow> real \<Rightarrow> Game" where
  "update g now draws u =
     (let g1 = (if now \<ge> next_spawn_time g \<and> running g
                then (spawn_qubit draws g now)\<lparr>next_spawn_time := now + u\<rparr>
                else g);
          g2 = g1\<lparr>qubits := filter (\<lambda>q. is_alive q now) (qubits g1)\<rparr>
      in
        if collides (qubits g2) (player g2) now \<and> running g2
        then g2\<lparr>lose := True, running := False\<rparr>
        else
          let elapsed = now - start_time g2;
              time_left = TOTAL_TIME - elapsed
          in
            if time_left \<le> 0 \<and> running g2
            then g2\<lparr>lose := True, running := False\<rparr>
            else g2)"

subsection \<open>Phases, grid bounds and reachable states\<close>

text \<open>The specification's phase is an abstraction of the three flags \<^verbatim>\<open>running\<close>,
  \<^verbatim>\<open>win\<close> and \<^verbatim>\<open>lose\<close>. It is defined for the three combinations in which exactly one
  of them is set, and undefined (\<open>None\<close>) for every other combination.\<close>

datatype Phase = Playing | Won | Lost

definition phase :: "Game \<Rightarrow> Phase option" where
  "phase g =
     (if running g \<and> \<not> win g \<and> \<not> lose g then Some Playing
      else if \<not> running g \<and> win g \<and> \<not> lose g then Some Won
      else if \<not> running g \<and> \<not> win g \<and> lose g then Some Lost
      else None)"

definition in_grid :: "int \<times> int \<Rightarrow> bool" where
  "in_grid p = (0 \<le> fst p \<and> fst p < GRID_COLS \<and> 0 \<le> snd p \<and> snd p < GRID_ROWS)"

text \<open>The states that the constructor followed by any sequence of \<^verbatim>\<open>try_move\<close>,
  \<^verbatim>\<open>update\<close> and \<^verbatim>\<open>reset\<close> calls produces, under any clock readings and any draws.\<close>

inductive reachable :: "Game \<Rightarrow> bool" where
  init: "reachable (Game_init now u)"
| move: "reachable g \<Longrightarrow> reachable (try_move g dx dy now)"
| tick: "reachable g \<Longrightarrow> reachable (update g now draws u)"
| restart: "reachable g \<Longrightarrow> reachable (reset g now u)"

subsection \<open>Auxiliary notions for stating the properties\<close>

text \<open>A draw is rejected by an iteration of the spawn loop when it is the goal tile or
  the tile of a qubit of the list that is alive at \<open>now\<close>; these are the two tests that
  end in \<^verbatim>\<open>tries += 1; continue\<close>.\<close>

definition rejected :: "Game \<Rightarrow> real \<Rightarrow> int \<times> int \<Rightarrow> bool" where
  "rejected g now p = (p = goal g \<or> collides (qubits g) p now)"

text \<open>The state after \<^verbatim>\<open>self.qubits.append(Qubit(candidate, now))\<close>.\<close>

definition appended :: "Game \<Rightarrow> real \<Rightarrow> int \<times> int \<Rightarrow> Game" where
  "appended g now p = g\<lparr>qubits := qubits g @ [Qubit_init p now QUBIT_LIFETIME]\<rparr>"

text \<open>A run of \<^verbatim>\<open>update\<close> calls, one after the other, each with its own clock reading
  and draws.\<close>

fun update_all :: "Game \<Rightarrow> (real \<times> (nat \<Rightarrow> int \<times> int) \<times> real) list \<Rightarrow> Game" where
  "update_all g [] = g"
| "update_all g ((now, draws, u) # calls) = update_all (update g now draws u) calls"

text \<open>The fade value as the specification words it, \<open>clamp(1 - age/lifetime, 0, 1)\<close>: a
  real number between 0 and 1. This definition follows the specification, not the
  source; it is compared with \<open>alpha\<close> below.\<close>

definition fadeAlpha_spec :: "Qubit \<Rightarrow> real \<Rightarrow> real" where
  "fadeAlpha_spec q now = max 0 (min 1 (1 - age q now / lifetime q))"

text \<open>The float that \<open>alpha\<close> passes to \<^verbatim>\<open>int\<close>, for a lifetime other than 0.\<close>

definition alpha_scaled :: "(real \<Rightarrow> real) \<Rightarrow> Qubit \<Rightarrow> real \<Rightarrow> real" where
  "alpha_scaled rnd q now =
     rnd (255 * rnd (1 - max 0 (min 1 (rnd (age_fl rnd q now / lifetime q)))))"

subsection \<open>Concrete states, qubits and draws for the instances\<close>

text \<open>A random source whose every draw is the tile \<open>p\<close>, and one whose first draw is
  the goal tile and every later draw \<open>p\<close>.\<close>

definition draws_const :: "int \<times> int \<Rightarrow> nat \<Rightarrow> int \<times> int" where
  "draws_const p i = p"

definition draws_goal_then :: "int \<times> int \<Rightarrow> nat \<Rightarrow> int \<times> int" where
  "draws_goal_then p i = (if i = 0 then (GRID_COLS - 1, 0) else p)"

text \<open>The state after the constructor, at time 0 with the first spawn due at 0.5.\<close>

definition g_start :: Game where
  "g_start = Game_init 0 (1 / 2)"

text \<open>From there one step to the right at time 0.1 and one \<^verbatim>\<open>update\<close> at time 1, which
  spawns a qubit on tile (3, 4).\<close>

definition g_moved :: Game where
  "g_moved = update (try_move g_start 1 0 (1 / 10)) 1 (draws_const (3, 4)) (1 / 2)"

text \<open>A playing state with the player on tile (8, 0), next to the goal (9, 0).\<close>

definition g_near :: Game where
  "g_near = g_start\<lparr>player := (8, 0)\<rparr>"

text \<open>A state whose list of qubits is at the cap.\<close>

definition g_full :: Game where
  "g_full = g_start\<lparr>qubits := replicate 6 (Qubit_init (3, 4) 0 QUBIT_LIFETIME)\<rparr>"

definition q_goal :: Qubit where
  "q_goal = Qubit_init (9, 0) 0 QUBIT_LIFETIME"

text \<open>Three qubits whose fields are doubles: one spawned at time 1 with lifetime 2, one
  spawned at time 0 with lifetime 5, and one spawned at time \<open>1 / 2 ^ 60\<close> with lifetime 1.25.\<close>

definition q_example :: Qubit where
  "q_example = \<lparr>grid_pos = (3, 4), spawn_time = 1, lifetime = 2\<rparr>"

definition q_slow :: Qubit where
  "q_slow = \<lparr>grid_pos = (0, 0), spawn_time = 0, lifetime = 5\<rparr>"

definition q_tiny :: Qubit where
  "q_tiny = \<lparr>grid_pos = (0, 0), spawn_time = 1 / 2 ^ 60, lifetime = 5 / 4\<rparr>"

section \<open>Auxiliary lemmas\<close>

subsection \<open>The collision test and the spawn loop\<close>

lemma collides_iff:
  "collides qs p now \<longleftrightarrow> (\<exists>q \<in> set qs. grid_pos q = p \<and> is_alive q now)"
  by (induction qs) auto

lemma spawn_loop_stop: "\<not> tries < 50 \<Longrightarrow> spawn_loop draws g now tries = g"
  by (subst spawn_loop.simps) simp

lemma spawn_loop_step:
  "tries < 50 \<Longrightarrow>
   spawn_loop draws g now tries =
     (if rejected g now (draws tries) then spawn_loop draws g now (Suc tries)
      else appended g now (draws tries))"
  by (subst spawn_loop.simps) (simp add: Let_def rejected_def appended_def)

lemma spawn_loop_cases:
  "spawn_loop draws g now t = g \<or>
   (\<exists>i. t \<le> i \<and> i < 50 \<and> \<not> rejected g now (draws i) \<and>
        spawn_loop draws g now t = appended g now (draws i))"
proof (induction "50 - t" arbitrary: t)
  case 0
  then show ?case by (simp add: spawn_loop_stop)
next
  case (Suc n)
  then have lt: "t < 50" and rest: "n = 50 - Suc t" by simp_all
  show ?case
  proof (cases "rejected g now (draws t)")
    case True
    with lt have "spawn_loop draws g now t = spawn_loop draws g now (Suc t)"
      by (simp add: spawn_loop_step)
    with Suc.hyps(1) [OF rest] show ?thesis by (metis Suc_leD)
  next
    case False
    with lt have "spawn_loop draws g now t = appended g now (draws t)"
      by (simp add: spawn_loop_step)
    with False lt show ?thesis by blast
  qed
qed

lemma spawn_loop_exhausted:
  "\<forall>i. t \<le> i \<and> i < 50 \<longrightarrow> rejected g now (draws i)
   \<Longrightarrow> spawn_loop draws g now t = g"
proof (induction "50 - t" arbitrary: t)
  case 0
  then show ?case by (simp add: spawn_loop_stop)
next
  case (Suc n)
  then have lt: "t < 50" and rest: "n = 50 - Suc t" by simp_all
  from Suc.prems lt have rej: "rejected g now (draws t)" by simp
  from Suc.prems have "\<forall>i. Suc t \<le> i \<and> i < 50 \<longrightarrow> rejected g now (draws i)"
    by simp
  with Suc.hyps(1) [OF rest] have "spawn_loop draws g now (Suc t) = g" by simp
  with lt rej show ?case by (simp add: spawn_loop_step)
qed

lemma spawn_loop_first:
  "t \<le> i \<Longrightarrow> i < 50 \<Longrightarrow> \<not> rejected g now (draws i) \<Longrightarrow>
   \<forall>j. t \<le> j \<and> j < i \<longrightarrow> rejected g now (draws j) \<Longrightarrow>
   spawn_loop draws g now t = appended g now (draws i)"
proof (induction "i - t" arbitrary: t)
  case 0
  then have "t = i" by simp
  with "0.prems" show ?case by (simp add: spawn_loop_step)
next
  case (Suc n)
  then have less: "t < i" and rest: "n = i - Suc t" by simp_all
  with Suc.prems have lt: "t < 50" and rej: "rejected g now (draws t)" by simp_all
  from Suc.prems have "\<forall>j. Suc t \<le> j \<and> j < i \<longrightarrow> rejected g now (draws j)"
    by simp
  with Suc.hyps(1) [OF rest] less Suc.prems
  have "spawn_loop draws g now (Suc t) = appended g now (draws i)" by simp
  with lt rej show ?case by (simp add: spawn_loop_step)
qed


subsection \<open>What each operation changes\<close>

lemma spawn_qubit_cases:
  "spawn_qubit draws g now = g \<or>
   (length (qubits g) < MAX_ACTIVE_QUBITS \<and>
    (\<exists>i<50. \<not> rejected g now (draws i) \<and> spawn_qubit draws g now = appended g now (draws i)))"
  using spawn_loop_cases [of draws g now 0] by (auto simp: spawn_qubit_def)

lemma spawn_qubit_frame:
  "\<exists>qs. spawn_qubit draws g now = g\<lparr>qubits := qs\<rparr>"
proof -
  have "g = g\<lparr>qubits := qubits g\<rparr>" by simp
  then show ?thesis
    using spawn_qubit_cases [of draws g now] unfolding appended_def by metis
qed

lemma spawn_qubit_length:
  "length (qubits g) \<le> MAX_ACTIVE_QUBITS \<Longrightarrow>
   length (qubits (spawn_qubit draws g now)) \<le> MAX_ACTIVE_QUBITS"
  using spawn_qubit_cases [of draws g now] by (auto simp: appended_def)

lemma update_fields:
  "player (update g now draws u) = player g"
  "start (update g now draws u) = start g"
  "goal (update g now draws u) = goal g"
  "start_time (update g now draws u) = start_time g"
  "pause (update g now draws u) = pause g"
  "win (update g now draws u) = win g"
  "Game.more (update g now draws u) = Game.more g"
proof -
  obtain qs where sq: "spawn_qubit draws g now = g\<lparr>qubits := qs\<rparr>"
    using spawn_qubit_frame by blast
  show "player (update g now draws u) = player g"
    by (simp add: update_def Let_def sq)
  show "start (update g now draws u) = start g"
    by (simp add: update_def Let_def sq)
  show "goal (update g now draws u) = goal g"
    by (simp add: update_def Let_def sq)
  show "start_time (update g now draws u) = start_time g"
    by (simp add: update_def Let_def sq)
  show "pause (update g now draws u) = pause g"
    by (simp add: update_def Let_def sq)
  show "win (update g now draws u) = win g"
    by (simp add: update_def Let_def sq)
  show "Game.more (update g now draws u) = Game.more g"
    by (simp add: update_def Let_def sq)
qed

lemma update_qubits_alive:
  "q \<in> set (qubits (update g now draws u)) \<Longrightarrow> is_alive q now"
  by (auto simp: update_def Let_def split: if_splits)

lemma update_length:
  assumes "length (qubits g) \<le> MAX_ACTIVE_QUBITS"
  shows "length (qubits (update g now draws u)) \<le> MAX_ACTIVE_QUBITS"
proof -
  have "length (filter (\<lambda>q. is_alive q now) (qubits (spawn_qubit draws g now)))
          \<le> MAX_ACTIVE_QUBITS"
    using spawn_qubit_length [OF assms, of draws now]
    by (meson le_trans length_filter_le)
  moreover have "length (filter (\<lambda>q. is_alive q now) (qubits g)) \<le> MAX_ACTIVE_QUBITS"
    using assms by (meson le_trans length_filter_le)
  ultimately show ?thesis
    by (simp add: update_def Let_def)
qed

lemma update_not_running:
  "\<not> running g \<Longrightarrow> running (update g now draws u) = running g \<and>
     lose (update g now draws u) = lose g \<and>
     next_spawn_time (update g now draws u) = next_spawn_time g"
  by (simp add: update_def Let_def)

lemma update_flags:
  "running g \<Longrightarrow>
     (running (update g now draws u) \<and> lose (update g now draws u) = lose g) \<or>
     (\<not> running (update g now draws u) \<and> lose (update g now draws u))"
proof -
  obtain qs where sq: "spawn_qubit draws g now = g\<lparr>qubits := qs\<rparr>"
    using spawn_qubit_frame by blast
  assume "running g"
  then show ?thesis by (simp add: update_def Let_def sq)
qed

lemma update_timeout_flags:
  assumes "running g" and "TOTAL_TIME \<le> now - start_time g"
  shows "\<not> running (update g now draws u) \<and> lose (update g now draws u)"
proof -
  obtain qs where sq: "spawn_qubit draws g now = g\<lparr>qubits := qs\<rparr>"
    using spawn_qubit_frame by blast
  from assms show ?thesis by (simp add: update_def Let_def sq)
qed

lemma try_move_flags:
  "(\<not> running g \<longrightarrow> try_move g dx dy now = g) \<and>
   (running g \<longrightarrow>
      (running (try_move g dx dy now) \<and> win (try_move g dx dy now) = win g \<and>
         lose (try_move g dx dy now) = lose g) \<or>
      (\<not> running (try_move g dx dy now) \<and> win (try_move g dx dy now) = win g \<and>
         lose (try_move g dx dy now)) \<or>
      (\<not> running (try_move g dx dy now) \<and> win (try_move g dx dy now) \<and>
         lose (try_move g dx dy now) = lose g))"
  by (simp add: try_move_def Let_def)

lemma try_move_fields:
  "start (try_move g dx dy now) = start g"
  "goal (try_move g dx dy now) = goal g"
  "qubits (try_move g dx dy now) = qubits g"
  by (simp_all add: try_move_def Let_def)

lemma try_move_player:
  "player (try_move g dx dy now) = player g \<or>
   (player (try_move g dx dy now) = (fst (player g) + dx, snd (player g) + dy) \<and>
    in_grid (fst (player g) + dx, snd (player g) + dy))"
  by (simp add: try_move_def Let_def in_grid_def)

subsection \<open>Invariants of the reachable states\<close>

lemma reachable_start: "reachable g \<Longrightarrow> start g = (0, GRID_ROWS - 1)"
  by (induction rule: reachable.induct)
     (simp_all add: Game_init_def reset_def try_move_fields update_fields)

lemma reachable_in_grid: "reachable g \<Longrightarrow> in_grid (player g)"
proof (induction rule: reachable.induct)
  case (init now u)
  show ?case by (simp add: Game_init_def reset_def in_grid_def GRID_ROWS_def GRID_COLS_def)
next
  case (move g dx dy now)
  then show ?case using try_move_player [of g dx dy now] by auto
next
  case (tick g now draws u)
  then show ?case by (simp add: update_fields)
next
  case (restart g now u)
  then have "start g = (0, GRID_ROWS - 1)" by (simp add: reachable_start)
  then show ?case by (simp add: reset_def in_grid_def GRID_ROWS_def GRID_COLS_def)
qed

lemma reachable_length: "reachable g \<Longrightarrow> length (qubits g) \<le> MAX_ACTIVE_QUBITS"
  by (induction rule: reachable.induct)
     (simp_all add: Game_init_def reset_def try_move_fields update_length)

lemma reachable_flags:
  "reachable g \<Longrightarrow> \<not> (win g \<and> lose g) \<and> (running g \<longleftrightarrow> \<not> win g \<and> \<not> lose g)"
proof (induction rule: reachable.induct)
  case (init now u)
  show ?case by (simp add: Game_init_def reset_def)
next
  case (move g dx dy now)
  then show ?case using try_move_flags [of g dx dy now] by (cases "running g") auto
next
  case (tick g now draws u)
  then show ?case
    using update_flags [of g now draws u] update_not_running [of g now draws u]
    by (cases "running g") (auto simp: update_fields)
next
  case (restart g now u)
  show ?case by (simp add: reset_def)
qed

subsection \<open>The concrete states, evaluated\<close>

lemma g_start_eq:
  "g_start = \<lparr>start = (0, 9), goal = (9, 0), player = (0, 9), qubits = [],
     start_time = 0, next_spawn_time = 1 / 2, running = True, win = False,
     lose = False, pause = False\<rparr>"
  by (simp add: g_start_def Game_init_def reset_def GRID_COLS_def GRID_ROWS_def)

lemma g_moved_eq:
  "g_moved = \<lparr>start = (0, 9), goal = (9, 0), player = (1, 9),
     qubits = [\<lparr>grid_pos = (3, 4), spawn_time = 1, lifetime = 6 / 5\<rparr>],
     start_time = 0, next_spawn_time = 3 / 2, running = True, win = False,
     lose = False, pause = False\<rparr>"
  by (simp add: g_moved_def g_start_eq try_move_def update_def spawn_qubit_def
      spawn_loop_step rejected_def appended_def draws_const_def Qubit_init_def
      is_alive_def age_def Let_def
      GRID_COLS_def GRID_ROWS_def MAX_ACTIVE_QUBITS_def QUBIT_LIFETIME_def TOTAL_TIME_def)

lemma reachable_g_moved: "reachable g_moved"
  unfolding g_moved_def g_start_def by (intro reachable.intros)

subsection \<open>Phases after the game has ended\<close>

lemma phase_update_done:
  assumes "phase g = Some Won \<or> phase g = Some Lost"
  shows "phase (update g now draws u) = phase g"
proof -
  from assms have "\<not> running g" by (auto simp: phase_def split: if_splits)
  then show ?thesis
    using update_not_running [of g now draws u]
    by (simp add: phase_def update_fields)
qed

lemma phase_update_all_done:
  "phase g = Some Won \<or> phase g = Some Lost \<Longrightarrow> phase (update_all g calls) = phase g"
proof (induction calls arbitrary: g)
  case Nil
  show ?case by simp
next
  case (Cons c calls)
  obtain now draws u where c: "c = (now, draws, u)" by (cases c) auto
  from Cons.prems have "phase (update g now draws u) = phase g"
    by (rule phase_update_done)
  with Cons.IH [of "update g now draws u"] Cons.prems show ?case
    by (simp add: c)
qed

subsection \<open>The rounding of doubles\<close>

lemma round_even_near: "\<bar>of_int (round_even x) - x\<bar> \<le> 1 / 2"
proof -
  have "of_int \<lfloor>x\<rfloor> \<le> x" "x < of_int \<lfloor>x\<rfloor> + 1" by linarith+
  then show ?thesis by (auto simp: round_even_def Let_def)
qed

lemma round_even_of_int [simp]: "round_even (of_int n) = n"
  by (simp add: round_even_def)

lemma round_even_mono: assumes "x \<le> y" shows "round_even x \<le> round_even y"
proof (rule ccontr)
  assume "\<not> round_even x \<le> round_even y"
  then have gt: "round_even y + 1 \<le> round_even x" by simp
  then have "real_of_int (round_even y) + 1 \<le> of_int (round_even x)" by linarith
  with round_even_near [of x] round_even_near [of y] assms
  have "x = y" by linarith
  with gt show False by simp
qed

lemma double_round_at:
  assumes "2 powr of_int e \<le> \<bar>x\<bar>" and "\<bar>x\<bar> < 2 powr (of_int e + 1)"
  shows "double_round x = 2 powr of_int (e - 52) * of_int (round_even (x / 2 powr of_int (e - 52)))"
proof -
  have pos: "0 < \<bar>x\<bar>" using assms(1) by (smt (verit) powr_gt_zero)
  then have "\<lfloor>log 2 \<bar>x\<bar>\<rfloor> = e"
    using assms by (simp add: floor_log_eq_powr_iff)
  with pos show ?thesis by (simp add: double_round_def Let_def)
qed

lemma binade:
  assumes "x \<noteq> 0"
  shows "2 powr of_int \<lfloor>log 2 \<bar>x\<bar>\<rfloor> \<le> \<bar>x\<bar> \<and> \<bar>x\<bar> < 2 powr (of_int \<lfloor>log 2 \<bar>x\<bar>\<rfloor> + 1)"
  using assms floor_log_eq_powr_iff [of "\<bar>x\<bar>" 2 "\<lfloor>log 2 \<bar>x\<bar>\<rfloor>"] by simp


lemma ulp_scale:
  "(2::real) powr of_int e = 2 powr of_int (e - 52) * 2 ^ 52"
  "(2::real) powr (of_int e + 1) = 2 powr of_int (e - 52) * 2 ^ 53"
proof -
  have "(2::real) powr of_int e = 2 powr (of_int (e - 52) + 52)" by simp
  also have "\<dots> = 2 powr of_int (e - 52) * 2 powr 52" by (simp only: powr_add)
  finally show "(2::real) powr of_int e = 2 powr of_int (e - 52) * 2 ^ 52" by simp
  have "real_of_int e + 1 = of_int (e - 52) + 53" by simp
  then have "(2::real) powr (of_int e + 1) = 2 powr (of_int (e - 52) + 53)"
    by (rule arg_cong)
  also have "\<dots> = 2 powr of_int (e - 52) * 2 powr 53" by (simp only: powr_add)
  finally show "(2::real) powr (of_int e + 1) = 2 powr of_int (e - 52) * 2 ^ 53" by simp
qed

lemma double_round_pos_bounds:
  assumes "0 < x" and "2 powr of_int e \<le> x" and "x < 2 powr (of_int e + 1)"
  shows "2 powr of_int e \<le> double_round x \<and> double_round x \<le> 2 powr (of_int e + 1)"
proof -
  define u :: real where "u = 2 powr of_int (e - 52)"
  have u: "0 < u" by (simp add: u_def)
  have sc: "2 powr of_int e = u * 2 ^ 52" "2 powr (of_int e + 1) = u * 2 ^ 53"
    unfolding u_def by (rule ulp_scale)+
  from assms(2) sc(1) u have lo: "2 ^ 52 \<le> x / u" by (simp add: field_simps)
  from assms(3) sc(2) u have hi: "x / u \<le> 2 ^ 53" by (simp add: field_simps)
  have "round_even (of_int (2 ^ 52)) \<le> round_even (x / u)"
    using lo by (intro round_even_mono) simp
  then have n1: "2 ^ 52 \<le> round_even (x / u)" by (simp only: round_even_of_int)
  have "round_even (x / u) \<le> round_even (of_int (2 ^ 53))"
    using hi by (intro round_even_mono) simp
  then have n2: "round_even (x / u) \<le> 2 ^ 53" by (simp only: round_even_of_int)
  have r: "double_round x = u * of_int (round_even (x / u))"
    using assms double_round_at [of e x] by (simp add: u_def)
  from n1 have "(2::real) ^ 52 \<le> of_int (round_even (x / u))"
    using of_int_le_iff [of "2 ^ 52" "round_even (x / u)", where ?'a = real] by simp
  then have a: "u * 2 ^ 52 \<le> u * of_int (round_even (x / u))"
    using u by (intro mult_left_mono) simp_all
  from n2 have "real_of_int (round_even (x / u)) \<le> 2 ^ 53"
    using of_int_le_iff [of "round_even (x / u)" "2 ^ 53", where ?'a = real] by simp
  then have b: "u * of_int (round_even (x / u)) \<le> u * 2 ^ 53"
    using u by (intro mult_left_mono) simp_all
  from a b show ?thesis unfolding r sc by simp
qed

lemma double_round_neg_bounds:
  assumes "x < 0" and "2 powr of_int e \<le> - x" and "- x < 2 powr (of_int e + 1)"
  shows "- (2 powr (of_int e + 1)) \<le> double_round x \<and> double_round x \<le> - (2 powr of_int e)"
proof -
  define u :: real where "u = 2 powr of_int (e - 52)"
  have u: "0 < u" by (simp add: u_def)
  have sc: "2 powr of_int e = u * 2 ^ 52" "2 powr (of_int e + 1) = u * 2 ^ 53"
    unfolding u_def by (rule ulp_scale)+
  from assms(3) sc(2) u have lo: "- (2 ^ 53) \<le> x / u" by (simp add: field_simps)
  from assms(2) sc(1) u have hi: "x / u \<le> - (2 ^ 52)" by (simp add: field_simps)
  have "round_even (of_int (- (2 ^ 53))) \<le> round_even (x / u)"
    using lo by (intro round_even_mono) simp
  then have n1: "- (2 ^ 53) \<le> round_even (x / u)" by (simp only: round_even_of_int)
  have "round_even (x / u) \<le> round_even (of_int (- (2 ^ 52)))"
    using hi by (intro round_even_mono) simp
  then have n2: "round_even (x / u) \<le> - (2 ^ 52)" by (simp only: round_even_of_int)
  have r: "double_round x = u * of_int (round_even (x / u))"
    using assms double_round_at [of e x] by (simp add: u_def)
  from n1 have "- ((2::real) ^ 53) \<le> of_int (round_even (x / u))"
    using of_int_le_iff [of "- (2 ^ 53)" "round_even (x / u)", where ?'a = real] by simp
  then have a: "u * (- (2 ^ 53)) \<le> u * of_int (round_even (x / u))"
    using u by (intro mult_left_mono) simp_all
  from n2 have "real_of_int (round_even (x / u)) \<le> - (2 ^ 52)"
    using of_int_le_iff [of "round_even (x / u)" "- (2 ^ 52)", where ?'a = real] by simp
  then have b: "u * of_int (round_even (x / u)) \<le> u * (- (2 ^ 52))"
    using u by (intro mult_left_mono) simp_all
  from a b show ?thesis unfolding r sc by simp
qed


lemma double_round_zero [simp]: "double_round 0 = 0"
  by (simp add: double_round_def)

lemma double_round_pos: "0 < x \<Longrightarrow> 0 < double_round x"
proof -
  assume x: "0 < x"
  with binade [of x] have "2 powr of_int \<lfloor>log 2 x\<rfloor> \<le> double_round x"
    using double_round_pos_bounds [of x "\<lfloor>log 2 x\<rfloor>"] by simp
  moreover have "(0::real) < 2 powr of_int \<lfloor>log 2 x\<rfloor>" by simp
  ultimately show ?thesis by linarith
qed

lemma double_round_neg: "x < 0 \<Longrightarrow> double_round x < 0"
proof -
  assume x: "x < 0"
  with binade [of x] have "double_round x \<le> - (2 powr of_int \<lfloor>log 2 (- x)\<rfloor>)"
    using double_round_neg_bounds [of x "\<lfloor>log 2 (- x)\<rfloor>"] by simp
  moreover have "(0::real) < 2 powr of_int \<lfloor>log 2 (- x)\<rfloor>" by simp
  ultimately show ?thesis by linarith
qed

lemma double_round_mono_pos:
  assumes "0 < x" and "x \<le> y"
  shows "double_round x \<le> double_round y"
proof -
  define ex where "ex = \<lfloor>log 2 x\<rfloor>"
  define ey where "ey = \<lfloor>log 2 y\<rfloor>"
  from assms have y: "0 < y" by simp
  from assms have bx: "2 powr of_int ex \<le> x" "x < 2 powr (of_int ex + 1)"
    using binade [of x] by (simp_all add: ex_def)
  from y have by': "2 powr of_int ey \<le> y" "y < 2 powr (of_int ey + 1)"
    using binade [of y] by (simp_all add: ey_def)
  from assms have "log 2 x \<le> log 2 y" by simp
  then have le: "ex \<le> ey" unfolding ex_def ey_def by (rule floor_mono)
  show ?thesis
  proof (cases "ex = ey")
    case True
    define u :: real where "u = 2 powr of_int (ex - 52)"
    have u: "0 < u" by (simp add: u_def)
    have rx: "double_round x = u * of_int (round_even (x / u))"
      using assms(1) bx double_round_at [of ex x] by (simp add: u_def)
    have ry: "double_round y = u * of_int (round_even (y / u))"
      using y by' True double_round_at [of ey y] by (simp add: u_def)
    from assms(2) u have "x / u \<le> y / u" by (simp add: divide_right_mono)
    then have "round_even (x / u) \<le> round_even (y / u)" by (rule round_even_mono)
    then have "real_of_int (round_even (x / u)) \<le> of_int (round_even (y / u))" by simp
    with u show ?thesis unfolding rx ry by (intro mult_left_mono) simp_all
  next
    case False
    with le have "ex + 1 \<le> ey" by simp
    then have "real_of_int ex + 1 \<le> of_int ey" by linarith
    then have "(2::real) powr (of_int ex + 1) \<le> 2 powr of_int ey"
      by (intro powr_mono) simp_all
    moreover have "double_round x \<le> 2 powr (of_int ex + 1)"
      using double_round_pos_bounds [OF assms(1) bx] by simp
    moreover have "2 powr of_int ey \<le> double_round y"
      using double_round_pos_bounds [OF y by'] by simp
    ultimately show ?thesis by linarith
  qed
qed

lemma double_round_mono_neg:
  assumes "y < 0" and "x \<le> y"
  shows "double_round x \<le> double_round y"
proof -
  define ex where "ex = \<lfloor>log 2 (- x)\<rfloor>"
  define ey where "ey = \<lfloor>log 2 (- y)\<rfloor>"
  from assms have x: "x < 0" by simp
  from x have bx: "2 powr of_int ex \<le> - x" "- x < 2 powr (of_int ex + 1)"
    using binade [of x] by (simp_all add: ex_def)
  from assms(1) have by': "2 powr of_int ey \<le> - y" "- y < 2 powr (of_int ey + 1)"
    using binade [of y] by (simp_all add: ey_def)
  from assms have "log 2 (- y) \<le> log 2 (- x)" by simp
  then have le: "ey \<le> ex" unfolding ex_def ey_def by (rule floor_mono)
  show ?thesis
  proof (cases "ex = ey")
    case True
    define u :: real where "u = 2 powr of_int (ex - 52)"
    have u: "0 < u" by (simp add: u_def)
    have rx: "double_round x = u * of_int (round_even (x / u))"
      using x bx double_round_at [of ex x] by (simp add: u_def)
    have ry: "double_round y = u * of_int (round_even (y / u))"
      using assms(1) by' True double_round_at [of ey y] by (simp add: u_def)
    from assms(2) u have "x / u \<le> y / u" by (simp add: divide_right_mono)
    then have "round_even (x / u) \<le> round_even (y / u)" by (rule round_even_mono)
    then have "real_of_int (round_even (x / u)) \<le> of_int (round_even (y / u))" by simp
    with u show ?thesis unfolding rx ry by (intro mult_left_mono) simp_all
  next
    case False
    with le have "ey + 1 \<le> ex" by simp
    then have "real_of_int ey + 1 \<le> of_int ex" by linarith
    then have "(2::real) powr (of_int ey + 1) \<le> 2 powr of_int ex"
      by (intro powr_mono) simp_all
    moreover have "double_round x \<le> - (2 powr of_int ex)"
      using double_round_neg_bounds [OF x bx] by simp
    moreover have "- (2 powr (of_int ey + 1)) \<le> double_round y"
      using double_round_neg_bounds [OF assms(1) by'] by simp
    ultimately show ?thesis by linarith
  qed
qed

lemma double_round_mono: "x \<le> y \<Longrightarrow> double_round x \<le> double_round y"
proof -
  assume le: "x \<le> y"
  consider "0 < x" | "y < 0" | "x \<le> 0" "0 \<le> y" by linarith
  then show ?thesis
  proof cases
    case 1
    from 1 le show ?thesis by (rule double_round_mono_pos)
  next
    case 2
    from 2 le show ?thesis by (rule double_round_mono_neg)
  next
    case 3
    have "double_round x \<le> 0"
      using 3(1) double_round_neg [of x] by (cases "x = 0") auto
    moreover have "0 \<le> double_round y"
      using 3(2) double_round_pos [of y] by (cases "y = 0") auto
    ultimately show ?thesis by simp
  qed
qed

lemma double_round_error: "\<bar>double_round x - x\<bar> \<le> \<bar>x\<bar> / 2 ^ 53"
proof (cases "x = 0")
  case True
  then show ?thesis by simp
next
  case False
  define e where "e = \<lfloor>log 2 \<bar>x\<bar>\<rfloor>"
  define u :: real where "u = 2 powr of_int (e - 52)"
  have u: "0 < u" by (simp add: u_def)
  from False have b: "2 powr of_int e \<le> \<bar>x\<bar>" "\<bar>x\<bar> < 2 powr (of_int e + 1)"
    using binade [of x] by (simp_all add: e_def)
  have r: "double_round x = u * of_int (round_even (x / u))"
    using b double_round_at [of e x] by (simp add: u_def)
  have "double_round x - x = u * (of_int (round_even (x / u)) - x / u)"
    using u by (simp add: r field_simps)
  then have "\<bar>double_round x - x\<bar> = u * \<bar>of_int (round_even (x / u)) - x / u\<bar>"
    using u by (simp add: abs_mult)
  also have "\<dots> \<le> u * (1 / 2)"
    using u round_even_near [of "x / u"] by (intro mult_left_mono) simp_all
  finally have 1: "\<bar>double_round x - x\<bar> \<le> u / 2" by simp
  have "u * 2 ^ 52 \<le> \<bar>x\<bar>" using b(1) ulp_scale(1) [of e] by (simp add: u_def)
  then have "u / 2 \<le> \<bar>x\<bar> / 2 ^ 53" by (simp add: field_simps)
  with 1 show ?thesis by linarith
qed

lemma double_round_one [simp]: "double_round 1 = 1"
proof -
  have "double_round 1 = 2 powr of_int (0 - 52) * of_int (round_even (1 / 2 powr of_int (0 - 52)))"
    by (rule double_round_at) simp_all
  also have "(2::real) powr of_int (0 - 52) = 1 / 2 ^ 52" by (simp add: powr_neg_numeral)
  also have "(1::real) / (1 / 2 ^ 52) = of_int (2 ^ 52)" by simp
  finally show ?thesis by (simp only: round_even_of_int) simp
qed

lemma double_round_255 [simp]: "double_round 255 = 255"
proof -
  have "double_round 255 = 2 powr of_int (7 - 52) * of_int (round_even (255 / 2 powr of_int (7 - 52)))"
    by (rule double_round_at) simp_all
  also have "(2::real) powr of_int (7 - 52) = 1 / 2 ^ 45" by (simp add: powr_neg_numeral)
  also have "(255::real) / (1 / 2 ^ 45) = of_int (255 * 2 ^ 45)" by simp
  finally show ?thesis by (simp only: round_even_of_int) simp
qed

text \<open>Evaluation: when \<open>x\<close> scaled by \<open>2 ^ k\<close> lies between \<open>2 ^ 52\<close> and \<open>2 ^ 53\<close>, the
  rounding of \<open>x\<close> is the rounding of the scaled number to an integer, scaled back.\<close>

lemma double_round_ulp:
  assumes "2 ^ 52 \<le> \<bar>x\<bar> * 2 ^ k" and "\<bar>x\<bar> * 2 ^ k < 2 ^ 53"
  shows "double_round x = of_int (round_even (x * 2 ^ k)) / 2 ^ k"
proof -
  define e where "e = 52 - int k"
  have u: "(2::real) powr of_int (e - 52) = 1 / 2 ^ k"
    by (simp add: e_def powr_minus powr_realpow divide_inverse)
  note sc = ulp_scale [of e, unfolded u]
  from assms(1) have "2 powr of_int e \<le> \<bar>x\<bar>"
    unfolding sc(1) by (simp add: field_simps)
  moreover from assms(2) have "\<bar>x\<bar> < 2 powr (of_int e + 1)"
    unfolding sc(2) by (simp add: field_simps)
  ultimately have "double_round x =
      2 powr of_int (e - 52) * of_int (round_even (x / 2 powr of_int (e - 52)))"
    by (rule double_round_at)
  then show ?thesis unfolding u by simp
qed

lemma round_even_numeral [simp]: "round_even (numeral n) = numeral n"
  using round_even_of_int [of "numeral n"] by simp

lemma double_round_4: "double_round 4 = 4"
  using double_round_ulp [of 4 50] by simp

lemma double_round_half: "double_round (1 / 2) = 1 / 2"
  using double_round_ulp [of "1 / 2" 53] by simp

lemma double_round_255_half: "double_round (255 / 2) = 255 / 2"
  using double_round_ulp [of "255 / 2" 46] by simp

lemma double_round_4_5: "double_round (4 / 5) = 7205759403792794 / 2 ^ 53"
  using double_round_ulp [of "4 / 5" 53] by (simp add: round_even_def)

lemma double_round_1_5: "double_round (1 - 7205759403792794 / 2 ^ 53) = 1801439850948198 / 2 ^ 53"
  using double_round_ulp [of "1 - 7205759403792794 / 2 ^ 53" 55] by (simp add: round_even_def)

lemma double_round_51: "double_round (255 * (1801439850948198 / 2 ^ 53)) = 7177611906121726 / 2 ^ 47"
  using double_round_ulp [of "255 * (1801439850948198 / 2 ^ 53)" 47] by (simp add: round_even_def)

subsection \<open>The queries of a qubit under a rounding\<close>

lemma exact_instance:
  "age q now = age_fl (\<lambda>x. x) q now"
  "is_alive q now = is_alive_fl (\<lambda>x. x) q now"
  by (simp_all add: age_def age_fl_def is_alive_def is_alive_fl_def)

lemma float_rounding_double: "float_rounding (1 / 2 ^ 53) double_round"
  unfolding float_rounding_def
  using double_round_error by (auto intro: double_round_mono)

lemma float_rounding_zero: "float_rounding eps rnd \<Longrightarrow> rnd 0 = 0"
proof -
  assume "float_rounding eps rnd"
  then have "\<bar>rnd 0 - 0\<bar> \<le> eps * \<bar>0\<bar>" unfolding float_rounding_def by blast
  then show ?thesis by simp
qed

lemma float_rounding_mono: "float_rounding eps rnd \<Longrightarrow> x \<le> y \<Longrightarrow> rnd x \<le> rnd y"
  unfolding float_rounding_def by blast

lemma float_rounding_error: "float_rounding eps rnd \<Longrightarrow> \<bar>rnd x - x\<bar> \<le> eps * \<bar>x\<bar>"
  unfolding float_rounding_def by blast

lemma alpha_scaled_range:
  assumes "float_rounding eps rnd"
  shows "0 \<le> alpha_scaled rnd q now \<and> alpha_scaled rnd q now \<le> 255"
proof -
  define frac where "frac = max 0 (min 1 (rnd (age_fl rnd q now / lifetime q)))"
  define t where "t = rnd (1 - frac)"
  have f: "0 \<le> frac" "frac \<le> 1" by (simp_all add: frac_def)
  have r0: "rnd 0 = 0" and r1: "rnd 1 = 1" and r255: "rnd 255 = 255"
    using assms float_rounding_zero [OF assms] by (simp_all add: float_rounding_def)
  from f have "rnd 0 \<le> t" "t \<le> rnd 1"
    unfolding t_def by (auto intro: float_rounding_mono [OF assms])
  then have t: "0 \<le> t" "t \<le> 1" by (simp_all add: r0 r1)
  then have "rnd 0 \<le> rnd (255 * t)" "rnd (255 * t) \<le> rnd 255"
    by (auto intro: float_rounding_mono [OF assms])
  then show ?thesis by (simp add: r0 r255 alpha_scaled_def t_def frac_def)
qed

lemma alpha_value:
  assumes "float_rounding eps rnd" and "lifetime q \<noteq> 0"
  shows "alpha rnd q now = Inr \<lfloor>alpha_scaled rnd q now\<rfloor>"
  using assms(2) alpha_scaled_range [OF assms(1), of q now]
  by (simp add: alpha_def Let_def alpha_scaled_def py_int_def)

lemma alpha_scaled_full:
  assumes "float_rounding eps rnd" and "0 < lifetime q" and "now - spawn_time q \<le> 0"
  shows "alpha_scaled rnd q now = 255"
proof -
  have r0: "rnd 0 = 0" and r1: "rnd 1 = 1" and r255: "rnd 255 = 255"
    using assms(1) float_rounding_zero [OF assms(1)] by (simp_all add: float_rounding_def)
  from assms(3) have "rnd (now - spawn_time q) \<le> rnd 0"
    by (rule float_rounding_mono [OF assms(1)])
  then have "age_fl rnd q now \<le> 0" by (simp add: age_fl_def r0)
  with assms(2) have "age_fl rnd q now / lifetime q \<le> 0"
    by (simp add: divide_le_0_iff)
  then have "rnd (age_fl rnd q now / lifetime q) \<le> rnd 0"
    by (rule float_rounding_mono [OF assms(1)])
  then have "max 0 (min 1 (rnd (age_fl rnd q now / lifetime q))) = 0"
    by (simp add: r0)
  then show ?thesis by (simp add: alpha_scaled_def r1 r255)
qed

lemma alpha_scaled_none:
  assumes "float_rounding eps rnd" and "0 < lifetime q" and "rnd (lifetime q) = lifetime q"
    and "lifetime q \<le> now - spawn_time q"
  shows "alpha_scaled rnd q now = 0"
proof -
  have r0: "rnd 0 = 0" and r1: "rnd 1 = 1"
    using assms(1) float_rounding_zero [OF assms(1)] by (simp_all add: float_rounding_def)
  from assms(4) have "rnd (lifetime q) \<le> rnd (now - spawn_time q)"
    by (rule float_rounding_mono [OF assms(1)])
  then have "lifetime q \<le> age_fl rnd q now" by (simp add: age_fl_def assms(3))
  with assms(2) have "1 \<le> age_fl rnd q now / lifetime q" by simp
  then have "rnd 1 \<le> rnd (age_fl rnd q now / lifetime q)"
    by (rule float_rounding_mono [OF assms(1)])
  then have "max 0 (min 1 (rnd (age_fl rnd q now / lifetime q))) = 1"
    by (simp add: r1)
  then show ?thesis by (simp add: alpha_scaled_def r0)
qed

lemma alpha_scaled_decays:
  assumes "float_rounding eps rnd" and "0 < lifetime q" and "now \<le> now'"
  shows "alpha_scaled rnd q now' \<le> alpha_scaled rnd q now"
proof -
  note m = float_rounding_mono [OF assms(1)]
  from assms(3) have "age_fl rnd q now \<le> age_fl rnd q now'"
    unfolding age_fl_def by (intro m) simp
  with assms(2) have "age_fl rnd q now / lifetime q \<le> age_fl rnd q now' / lifetime q"
    by (simp add: divide_right_mono)
  then have "rnd (age_fl rnd q now / lifetime q) \<le> rnd (age_fl rnd q now' / lifetime q)"
    by (rule m)
  then have "1 - max 0 (min 1 (rnd (age_fl rnd q now' / lifetime q)))
      \<le> 1 - max 0 (min 1 (rnd (age_fl rnd q now / lifetime q)))"
    by (simp add: max_def min_def)
  then have "rnd (1 - max 0 (min 1 (rnd (age_fl rnd q now' / lifetime q))))
      \<le> rnd (1 - max 0 (min 1 (rnd (age_fl rnd q now / lifetime q))))"
    by (rule m)
  then show ?thesis unfolding alpha_scaled_def by (intro m) simp
qed


lemma clamp_lipschitz:
  "\<bar>max 0 (min 1 (v::real)) - max 0 (min 1 x)\<bar> \<le> \<bar>v - x\<bar>"
  by (simp add: max_def min_def)

lemma one_minus_clamp: "1 - max 0 (min 1 (x::real)) = max 0 (min 1 (1 - x))"
  by (simp add: max_def min_def)

lemma quotient_error:
  assumes "float_rounding eps rnd" and "l \<noteq> 0"
  shows "\<bar>rnd (rnd A / l) - A / l\<bar> \<le> 3 * eps * \<bar>A / l\<bar>"
proof -
  from assms(1) have eps: "0 \<le> eps" "eps \<le> 1" by (simp_all add: float_rounding_def)
  have e1: "\<bar>rnd A - A\<bar> \<le> eps * \<bar>A\<bar>" by (rule float_rounding_error [OF assms(1)])
  have e2: "\<bar>rnd (rnd A / l) - rnd A / l\<bar> \<le> eps * \<bar>rnd A / l\<bar>"
    by (rule float_rounding_error [OF assms(1)])
  have "rnd A / l - A / l = (rnd A - A) / l" by (simp add: diff_divide_distrib)
  then have "\<bar>rnd A / l - A / l\<bar> = \<bar>rnd A - A\<bar> / \<bar>l\<bar>" by simp
  also have "\<dots> \<le> (eps * \<bar>A\<bar>) / \<bar>l\<bar>" using e1 by (simp add: divide_right_mono)
  finally have d: "\<bar>rnd A / l - A / l\<bar> \<le> eps * \<bar>A / l\<bar>" by simp
  then have "\<bar>rnd A / l\<bar> \<le> \<bar>A / l\<bar> + eps * \<bar>A / l\<bar>" by linarith
  then have "eps * \<bar>rnd A / l\<bar> \<le> eps * (\<bar>A / l\<bar> + eps * \<bar>A / l\<bar>)"
    using eps(1) by (rule mult_left_mono)
  also have "\<dots> = eps * \<bar>A / l\<bar> + eps * (eps * \<bar>A / l\<bar>)" by (simp add: algebra_simps)
  also have "eps * (eps * \<bar>A / l\<bar>) \<le> 1 * (eps * \<bar>A / l\<bar>)"
    using eps by (intro mult_right_mono) simp_all
  finally have "eps * \<bar>rnd A / l\<bar> \<le> 2 * (eps * \<bar>A / l\<bar>)" by simp
  with e2 d show ?thesis by linarith
qed

lemma clamp_error:
  assumes "float_rounding eps rnd" and "l \<noteq> 0"
  shows "\<bar>max 0 (min 1 (rnd (rnd A / l))) - max 0 (min 1 (A / l))\<bar> \<le> 6 * eps"
proof -
  define x where "x = A / l"
  define v where "v = rnd (rnd A / l)"
  from assms(1) have eps: "0 \<le> eps" "eps \<le> 1 / 8" by (simp_all add: float_rounding_def)
  have q: "\<bar>v - x\<bar> \<le> 3 * eps * \<bar>x\<bar>"
    unfolding v_def x_def by (rule quotient_error [OF assms])
  have "3 * eps * \<bar>x\<bar> \<le> 3 * (1 / 8) * \<bar>x\<bar>"
    using eps by (intro mult_right_mono mult_left_mono) simp_all
  with q have q8: "\<bar>v - x\<bar> \<le> 3 / 8 * \<bar>x\<bar>" by simp
  consider "\<bar>x\<bar> \<le> 2" | "2 < x" | "x < - 2" by linarith
  then have "\<bar>max 0 (min 1 v) - max 0 (min 1 x)\<bar> \<le> 6 * eps"
  proof cases
    case 1
    then have "3 * eps * \<bar>x\<bar> \<le> 3 * eps * 2"
      using eps(1) by (intro mult_left_mono) simp_all
    with q have "\<bar>v - x\<bar> \<le> 6 * eps" by simp
    with clamp_lipschitz [of v x] show ?thesis by linarith
  next
    case 2
    with q8 have "1 \<le> v" by linarith
    with 2 eps(1) show ?thesis by simp
  next
    case 3
    with q8 have "v \<le> 0" by linarith
    with 3 eps(1) show ?thesis by simp
  qed
  then show ?thesis by (simp add: v_def x_def)
qed

lemma alpha_scaled_close:
  assumes "float_rounding eps rnd" and "lifetime q \<noteq> 0"
  shows "\<bar>alpha_scaled rnd q now - 255 * fadeAlpha_spec q now\<bar> \<le> 2040 * eps"
proof -
  define frac where "frac = max 0 (min 1 (rnd (age_fl rnd q now / lifetime q)))"
  define c where "c = max 0 (min 1 (age q now / lifetime q))"
  define t where "t = rnd (1 - frac)"
  from assms(1) have eps: "0 \<le> eps" by (simp add: float_rounding_def)
  have r0: "rnd 0 = 0" and r1: "rnd 1 = 1"
    using assms(1) float_rounding_zero [OF assms(1)] by (simp_all add: float_rounding_def)
  have f: "0 \<le> frac" "frac \<le> 1" by (simp_all add: frac_def)
  have fc: "\<bar>frac - c\<bar> \<le> 6 * eps"
    unfolding frac_def c_def age_fl_def age_def by (rule clamp_error [OF assms])
  have "\<bar>t - (1 - frac)\<bar> \<le> eps * \<bar>1 - frac\<bar>"
    unfolding t_def by (rule float_rounding_error [OF assms(1)])
  also have "\<dots> \<le> eps * 1" using eps f by (intro mult_left_mono) simp_all
  finally have te: "\<bar>t - (1 - frac)\<bar> \<le> eps" by simp
  from f have "rnd 0 \<le> t" "t \<le> rnd 1"
    unfolding t_def by (auto intro: float_rounding_mono [OF assms(1)])
  then have t: "0 \<le> t" "t \<le> 1" by (simp_all add: r0 r1)
  have "\<bar>rnd (255 * t) - 255 * t\<bar> \<le> eps * \<bar>255 * t\<bar>"
    by (rule float_rounding_error [OF assms(1)])
  also have "\<dots> \<le> eps * 255" using eps t by (intro mult_left_mono) simp_all
  finally have me: "\<bar>rnd (255 * t) - 255 * t\<bar> \<le> 255 * eps" by simp
  have spec: "fadeAlpha_spec q now = 1 - c"
    by (simp add: fadeAlpha_spec_def c_def one_minus_clamp)
  have am: "alpha_scaled rnd q now = rnd (255 * t)"
    by (simp add: alpha_scaled_def t_def frac_def)
  from fc have fc': "frac - c \<le> 6 * eps" "- (frac - c) \<le> 6 * eps"
    by (simp_all add: abs_le_iff)
  from te have te': "t - (1 - frac) \<le> eps" "- (t - (1 - frac)) \<le> eps"
    by (simp_all add: abs_le_iff)
  from me have me': "rnd (255 * t) - 255 * t \<le> 255 * eps"
    "- (rnd (255 * t) - 255 * t) \<le> 255 * eps"
    by (simp_all add: abs_le_iff)
  from fc' te' me' have up: "rnd (255 * t) - 255 * (1 - c) \<le> 2040 * eps"
    by argo
  from fc' te' me' have dn: "- (rnd (255 * t) - 255 * (1 - c)) \<le> 2040 * eps"
    by argo
  from up dn show ?thesis unfolding spec am by (simp only: abs_le_iff)
qed

section \<open>The claims\<close>

subsection \<open>C1: a move onto the goal tile\<close>

text \<open>
  C1. In a state whose phase is Playing and that is not paused, \<open>try_move\<close> with an
  in-bounds destination commits the move. If a qubit alive at the time of the move
  stands on the destination, the phase becomes Lost, whatever the destination is: the
  collision test comes first. If the destination is the goal tile, the phase becomes
  Won, unless a qubit alive at the time of the move stands on the goal tile, and then
  it becomes Lost.
\<close>

theorem try_move_onto_goal:
  assumes "phase g = Some Playing" and "\<not> pause g"
    and "in_grid (fst (player g) + dx, snd (player g) + dy)"
  shows "player (try_move g dx dy now) = (fst (player g) + dx, snd (player g) + dy) \<and>
    ((\<exists>q \<in> set (qubits g).
        grid_pos q = (fst (player g) + dx, snd (player g) + dy) \<and> is_alive q now)
       \<longrightarrow> phase (try_move g dx dy now) = Some Lost) \<and>
    ((fst (player g) + dx, snd (player g) + dy) = goal g \<longrightarrow>
       phase (try_move g dx dy now) =
         (if \<exists>q \<in> set (qubits g). grid_pos q = goal g \<and> is_alive q now
          then Some Lost else Some Won))"
proof -
  from assms(1) have fl: "running g" "\<not> win g" "\<not> lose g"
    by (auto simp: phase_def split: if_splits)
  from assms(3) have ib: "0 \<le> fst (player g) + dx" "fst (player g) + dx < GRID_COLS"
    "0 \<le> snd (player g) + dy" "snd (player g) + dy < GRID_ROWS"
    by (simp_all add: in_grid_def)
  show ?thesis
    using fl assms(2) ib
    by (auto simp: try_move_def Let_def phase_def collides_iff)
qed

text \<open>From tile (8, 0) a step to the right reaches the goal (9, 0): Won with no qubit
  there, Lost with a qubit on the goal tile that is alive at the time of the move.\<close>

theorem try_move_onto_goal_witness:
  "phase g_near = Some Playing \<and> \<not> pause g_near \<and>
   in_grid (fst (player g_near) + 1, snd (player g_near) + 0) \<and>
   (fst (player g_near) + 1, snd (player g_near) + 0) = goal g_near \<and>
   phase (try_move g_near 1 0 1) = Some Won \<and>
   phase (g_near\<lparr>qubits := [q_goal]\<rparr>) = Some Playing \<and>
   is_alive q_goal 1 \<and>
   phase (try_move (g_near\<lparr>qubits := [q_goal]\<rparr>) 1 0 1) = Some Lost"
proof -
  have p: "phase g_near = Some Playing" "\<not> pause g_near"
    "phase (g_near\<lparr>qubits := [q_goal]\<rparr>) = Some Playing"
    by (simp_all add: g_near_def g_start_eq phase_def)
  have ig: "in_grid (fst (player g_near) + 1, snd (player g_near) + 0)"
    by (simp add: g_near_def g_start_eq in_grid_def GRID_COLS_def GRID_ROWS_def)
  have gl: "(fst (player g_near) + 1, snd (player g_near) + 0) = goal g_near"
    by (simp add: g_near_def g_start_eq)
  have al: "is_alive q_goal 1"
    by (simp add: q_goal_def Qubit_init_def is_alive_def age_def QUBIT_LIFETIME_def)
  have gq: "grid_pos q_goal = goal g_near"
    by (simp add: q_goal_def Qubit_init_def g_near_def g_start_eq)
  from try_move_onto_goal [OF p(1) p(2) ig, of 1] gl
  have w: "phase (try_move g_near 1 0 1) = Some Won"
    by (simp add: g_near_def g_start_eq)
  have p2: "\<not> pause (g_near\<lparr>qubits := [q_goal]\<rparr>)" using p(2) by simp
  have ig2: "in_grid (fst (player (g_near\<lparr>qubits := [q_goal]\<rparr>)) + 1,
      snd (player (g_near\<lparr>qubits := [q_goal]\<rparr>)) + 0)" using ig by simp
  from try_move_onto_goal [OF p(3) p2 ig2, of 1] gl al gq
  have l: "phase (try_move (g_near\<lparr>qubits := [q_goal]\<rparr>) 1 0 1) = Some Lost"
    by simp
  from p ig gl al w l show ?thesis by simp
qed

subsection \<open>C2: the outcome of a spawn\<close>

text \<open>
  C2, as the specification states it: a spawn that succeeds inserts a qubit whose
  lifetime is random. The source draws the tile at random and gives every qubit the
  constant lifetime \<open>QUBIT_LIFETIME\<close>. Two random sources that draw different tiles
  insert qubits on different tiles with the same lifetime, and no two random sources
  ever give inserted qubits of different lifetimes.
\<close>

theorem spawn_qubit_lifetime_not_random:
  "lifetime (last (qubits (spawn_qubit (draws_const (3, 4)) g_start 1))) = QUBIT_LIFETIME \<and>
   lifetime (last (qubits (spawn_qubit (draws_const (7, 2)) g_start 1))) = QUBIT_LIFETIME \<and>
   grid_pos (last (qubits (spawn_qubit (draws_const (3, 4)) g_start 1))) = (3, 4) \<and>
   grid_pos (last (qubits (spawn_qubit (draws_const (7, 2)) g_start 1))) = (7, 2) \<and>
   \<not> (\<exists>g now draws1 draws2.
        spawn_qubit draws1 g now \<noteq> g \<and> spawn_qubit draws2 g now \<noteq> g \<and>
        lifetime (last (qubits (spawn_qubit draws1 g now))) \<noteq>
        lifetime (last (qubits (spawn_qubit draws2 g now))))"
proof -
  have gen: "spawn_qubit draws g now \<noteq> g \<Longrightarrow>
      lifetime (last (qubits (spawn_qubit draws g now))) = QUBIT_LIFETIME" for draws g now
    using spawn_qubit_cases [of draws g now] by (auto simp: appended_def Qubit_init_def)
  have len: "length (qubits g_start) < MAX_ACTIVE_QUBITS"
    by (simp add: g_start_eq MAX_ACTIVE_QUBITS_def)
  have nr: "\<not> rejected g_start 1 (3, 4)" "\<not> rejected g_start 1 (7, 2)"
    by (simp_all add: rejected_def g_start_eq)
  have q: "qubits g_start = []"
    by (simp add: g_start_eq)
  have a: "spawn_qubit (draws_const p) g_start 1 = appended g_start 1 p"
    if "\<not> rejected g_start 1 p" for p
    using that len spawn_loop_step [of 0 "draws_const p" g_start 1]
    by (simp add: spawn_qubit_def draws_const_def)
  show ?thesis
    using gen by (simp add: a nr appended_def Qubit_init_def q) metis
qed

text \<open>
  C2, amended. Below the cap, \<open>spawn_qubit\<close> appends one qubit for the first of its
  at most 50 draws that is not rejected: on the drawn tile, with spawn time \<open>now\<close> and
  the constant lifetime \<open>QUBIT_LIFETIME\<close>, and nothing else of the state changes. When
  all 50 draws are rejected it returns the state unchanged. The function is total:
  there is no error.
\<close>

theorem spawn_qubit_outcome:
  assumes "length (qubits g) < MAX_ACTIVE_QUBITS"
  shows "(i < 50 \<and> \<not> rejected g now (draws i) \<and> (\<forall>j<i. rejected g now (draws j)) \<longrightarrow>
           spawn_qubit draws g now =
             g\<lparr>qubits := qubits g @
                 [\<lparr>grid_pos = draws i, spawn_time = now, lifetime = QUBIT_LIFETIME\<rparr>]\<rparr>) \<and>
         ((\<forall>j<50. rejected g now (draws j)) \<longrightarrow> spawn_qubit draws g now = g)"
proof -
  from assms have sq: "spawn_qubit draws g now = spawn_loop draws g now 0"
    by (simp add: spawn_qubit_def)
  show ?thesis
    using spawn_loop_first [of 0 i g now draws] spawn_loop_exhausted [of 0 g now draws]
    by (auto simp: sq appended_def Qubit_init_def)
qed

text \<open>With a first draw on the goal tile and a second on the free tile (3, 4), the
  second is inserted; with every draw on the goal tile, nothing is.\<close>

theorem spawn_qubit_outcome_witness:
  "length (qubits g_start) < MAX_ACTIVE_QUBITS \<and> (1::nat) < 50 \<and>
   \<not> rejected g_start 1 (draws_goal_then (3, 4) 1) \<and>
   rejected g_start 1 (draws_goal_then (3, 4) 0) \<and>
   spawn_qubit (draws_goal_then (3, 4)) g_start 1 =
     g_start\<lparr>qubits := [\<lparr>grid_pos = (3, 4), spawn_time = 1, lifetime = 6 / 5\<rparr>]\<rparr> \<and>
   rejected g_start 1 (GRID_COLS - 1, 0) \<and>
   spawn_qubit (draws_const (GRID_COLS - 1, 0)) g_start 1 = g_start"
proof -
  have len: "length (qubits g_start) < MAX_ACTIVE_QUBITS"
    by (simp add: g_start_eq MAX_ACTIVE_QUBITS_def)
  have r0: "rejected g_start 1 (draws_goal_then (3, 4) 0)"
    by (simp add: rejected_def draws_goal_then_def g_start_eq GRID_COLS_def)
  have r1: "\<not> rejected g_start 1 (draws_goal_then (3, 4) 1)"
    by (simp add: rejected_def draws_goal_then_def g_start_eq)
  have rg: "rejected g_start 1 (GRID_COLS - 1, 0)"
    by (simp add: rejected_def g_start_eq GRID_COLS_def)
  have q: "qubits g_start = []"
    by (simp add: g_start_eq)
  from spawn_qubit_outcome [OF len, of 1 1 "draws_goal_then (3, 4)"] r0 r1
  have a: "spawn_qubit (draws_goal_then (3, 4)) g_start 1 =
     g_start\<lparr>qubits := [\<lparr>grid_pos = (3, 4), spawn_time = 1, lifetime = 6 / 5\<rparr>]\<rparr>"
    by (simp add: q draws_goal_then_def QUBIT_LIFETIME_def)
  from spawn_qubit_outcome [OF len, of 0 1 "draws_const (GRID_COLS - 1, 0)"] rg
  have b: "spawn_qubit (draws_const (GRID_COLS - 1, 0)) g_start 1 = g_start"
    by (simp add: draws_const_def)
  from len r0 r1 rg a b show ?thesis by simp
qed

subsection \<open>C3: the player stays on the grid\<close>

text \<open>
  C3. In every state reachable from the constructor's \<open>reset\<close> by \<open>try_move\<close>,
  \<open>update\<close> and \<open>reset\<close> calls, the player's position lies in
  \<open>[0, GRID_COLS) \<times> [0, GRID_ROWS)\<close>; and in any state a \<open>try_move\<close> whose destination
  is out of bounds leaves the player's position unchanged.
\<close>

theorem player_in_grid:
  "(reachable g \<longrightarrow> in_grid (player g)) \<and>
   (\<not> in_grid (fst (player g) + dx, snd (player g) + dy) \<longrightarrow>
      player (try_move g dx dy now) = player g)"
proof -
  have "\<not> in_grid (fst (player g) + dx, snd (player g) + dy) \<Longrightarrow>
      player (try_move g dx dy now) = player g"
    using try_move_player [of g dx dy now] by auto
  then show ?thesis by (simp add: reachable_in_grid)
qed

text \<open>After one step to the right the player is on tile (1, 9), in the bottom row; a
  step down from there is out of bounds and is not taken.\<close>

theorem player_in_grid_witness:
  "reachable g_moved \<and> in_grid (player g_moved) \<and> player g_moved = (1, 9) \<and>
   \<not> in_grid (fst (player g_moved) + 0, snd (player g_moved) + 1) \<and>
   player (try_move g_moved 0 1 2) = (1, 9)"
proof -
  have p: "player g_moved = (1, 9)" by (simp add: g_moved_eq)
  have out: "\<not> in_grid (fst (player g_moved) + 0, snd (player g_moved) + 1)"
    by (simp add: p in_grid_def GRID_ROWS_def)
  from player_in_grid [of g_moved 0 1 2] reachable_g_moved out p
  show ?thesis by simp
qed

subsection \<open>C4: the time budget\<close>

text \<open>
  C4. In a state whose phase is Playing, \<open>update\<close> at a time \<open>now\<close> with
  \<open>now - start_time \<ge> TOTAL_TIME\<close> leaves the phase Lost. Once the phase is Won or Lost,
  no \<open>update\<close> call, and no run of \<open>update\<close> calls, changes it.
\<close>

theorem update_timeout_lost:
  "(phase g = Some Playing \<and> now - start_time g \<ge> TOTAL_TIME \<longrightarrow>
      phase (update g now draws u) = Some Lost) \<and>
   (phase g = Some Won \<or> phase g = Some Lost \<longrightarrow>
      phase (update g now draws u) = phase g \<and> phase (update_all g calls) = phase g)"
proof -
  have "phase (update g now draws u) = Some Lost"
    if "phase g = Some Playing" and "now - start_time g \<ge> TOTAL_TIME"
  proof -
    from that(1) have "running g" "\<not> win g" by (auto simp: phase_def split: if_splits)
    with that(2) update_timeout_flags [of g now draws u] show ?thesis
      by (simp add: phase_def update_fields)
  qed
  then show ?thesis
    using phase_update_done [of g now draws u] phase_update_all_done [of g calls] by blast
qed

text \<open>At time 45 the playing state \<open>g_moved\<close>, started at time 0, is Lost, and two
  further updates keep it Lost.\<close>

theorem update_timeout_lost_witness:
  "phase g_moved = Some Playing \<and> 45 - start_time g_moved \<ge> TOTAL_TIME \<and>
   phase (update g_moved 45 (draws_const (3, 4)) (1 / 2)) = Some Lost \<and>
   phase (update_all (update g_moved 45 (draws_const (3, 4)) (1 / 2))
            [(46, draws_const (5, 5), 1 / 2), (47, draws_const (6, 6), 1)]) = Some Lost"
proof -
  have p: "phase g_moved = Some Playing" by (simp add: g_moved_eq phase_def)
  have t: "45 - start_time g_moved \<ge> TOTAL_TIME" by (simp add: g_moved_eq TOTAL_TIME_def)
  from update_timeout_lost [of g_moved 45 "draws_const (3, 4)" "1 / 2"] p t
  have l: "phase (update g_moved 45 (draws_const (3, 4)) (1 / 2)) = Some Lost" by simp
  from update_timeout_lost [of "update g_moved 45 (draws_const (3, 4)) (1 / 2)" 46
      "draws_const (5, 5)" "1 / 2"
      "[(46, draws_const (5, 5), 1 / 2), (47, draws_const (6, 6), 1)]"] l
  have "phase (update_all (update g_moved 45 (draws_const (3, 4)) (1 / 2))
            [(46, draws_const (5, 5), 1 / 2), (47, draws_const (6, 6), 1)]) = Some Lost"
    by simp
  with p t l show ?thesis by simp
qed

subsection \<open>C5: the cap on the qubits\<close>

text \<open>
  C5. In every reachable state the list of qubits has at most \<open>MAX_ACTIVE_QUBITS\<close>
  elements, and so it has after a further \<open>update\<close>; \<open>spawn_qubit\<close> returns the state
  unchanged when the list already has \<open>MAX_ACTIVE_QUBITS\<close> elements or more.
\<close>

theorem qubits_within_cap:
  "(reachable g \<longrightarrow>
      length (qubits g) \<le> MAX_ACTIVE_QUBITS \<and>
      length (qubits (update g now draws u)) \<le> MAX_ACTIVE_QUBITS) \<and>
   (length (qubits g) \<ge> MAX_ACTIVE_QUBITS \<longrightarrow> spawn_qubit draws g now = g)"
  by (simp add: reachable_length update_length spawn_qubit_def)

theorem qubits_within_cap_witness:
  "reachable g_moved \<and> length (qubits g_moved) = 1 \<and>
   length (qubits g_moved) \<le> MAX_ACTIVE_QUBITS \<and>
   length (qubits (update g_moved 2 (draws_const (5, 5)) (1 / 2))) \<le> MAX_ACTIVE_QUBITS \<and>
   length (qubits g_full) \<ge> MAX_ACTIVE_QUBITS \<and>
   spawn_qubit (draws_const (5, 5)) g_full 1 = g_full"
proof -
  have n: "length (qubits g_moved) = 1" by (simp add: g_moved_eq)
  have f: "length (qubits g_full) \<ge> MAX_ACTIVE_QUBITS"
    by (simp add: g_full_def MAX_ACTIVE_QUBITS_def)
  from qubits_within_cap [of g_moved 2 "draws_const (5, 5)" "1 / 2"] reachable_g_moved
  have a: "length (qubits g_moved) \<le> MAX_ACTIVE_QUBITS \<and>
      length (qubits (update g_moved 2 (draws_const (5, 5)) (1 / 2))) \<le> MAX_ACTIVE_QUBITS"
    by simp
  from qubits_within_cap [of g_full 1 "draws_const (5, 5)" 0] f
  have b: "spawn_qubit (draws_const (5, 5)) g_full 1 = g_full" by simp
  from reachable_g_moved n f a b show ?thesis by simp
qed

subsection \<open>C6: expired qubits are purged\<close>

text \<open>
  C6. A qubit of the list with \<open>now - spawn_time \<ge> lifetime\<close> is not in the list that
  \<open>update\<close> at time \<open>now\<close> returns.
\<close>

theorem update_purges_expired:
  "q \<in> set (qubits g) \<and> now - spawn_time q \<ge> lifetime q \<longrightarrow>
     q \<notin> set (qubits (update g now draws u))"
  using update_qubits_alive [of q g now draws u] by (auto simp: is_alive_def age_def)

text \<open>The qubit of \<open>g_moved\<close>, spawned at time 1 with lifetime 1.2, is gone after the
  update at time 2.2.\<close>

theorem update_purges_expired_witness:
  "\<lparr>grid_pos = (3, 4), spawn_time = 1, lifetime = 6 / 5\<rparr> \<in> set (qubits g_moved) \<and>
   (11 / 5 :: real) - 1 \<ge> 6 / 5 \<and>
   \<lparr>grid_pos = (3, 4), spawn_time = 1, lifetime = 6 / 5\<rparr>
     \<notin> set (qubits (update g_moved (11 / 5) (draws_const (5, 5)) (1 / 2)))"
proof -
  have m: "\<lparr>grid_pos = (3, 4), spawn_time = 1, lifetime = 6 / 5\<rparr> \<in> set (qubits g_moved)"
    by (simp add: g_moved_eq)
  from update_purges_expired [of "\<lparr>grid_pos = (3, 4), spawn_time = 1, lifetime = 6 / 5\<rparr>"
      g_moved "11 / 5" "draws_const (5, 5)" "1 / 2"] m
  show ?thesis by simp
qed

subsection \<open>C7: the queries of a qubit\<close>

text \<open>
  C7, as the specification states it: the fade value of a qubit is
  \<open>clamp(1 - age/lifetime, 0, 1)\<close>, \<open>is_alive\<close> is \<open>now - spawn_time < lifetime\<close>, and the
  queries have no error condition. The source's \<open>alpha\<close> returns an integer between 0
  and 255: for the qubit spawned at time 1 with lifetime 2 it returns 255 at time 1,
  where the specification's value is 1, and 127 at time 2, where the specification's
  value is 0.5. With a lifetime of 0 the division in \<open>alpha\<close> raises
  \<open>ZeroDivisionError\<close>. And the age that \<open>is_alive\<close> compares is the rounded difference:
  the qubit spawned at time \<open>1 / 2 ^ 60\<close> with lifetime 1.25 is not alive at time 1.25,
  although the exact difference is below the lifetime. In all four instances the
  arguments are doubles.
\<close>

theorem alpha_not_unit_clamp:
  "alpha double_round q_example 1 = Inr 255 \<and> fadeAlpha_spec q_example 1 = 1 \<and>
   alpha double_round q_example 2 = Inr 127 \<and> fadeAlpha_spec q_example 2 = 1 / 2 \<and>
   alpha double_round (q_example\<lparr>lifetime := 0\<rparr>) 1 = Inl ZeroDivisionError \<and>
   \<not> is_alive_fl double_round q_tiny (5 / 4) \<and> 5 / 4 - spawn_time q_tiny < lifetime q_tiny"
proof -
  have a: "alpha double_round q_example 1 = Inr 255 \<and> fadeAlpha_spec q_example 1 = 1 \<and>
      alpha double_round q_example 2 = Inr 127 \<and> fadeAlpha_spec q_example 2 = 1 / 2 \<and>
      alpha double_round (q_example\<lparr>lifetime := 0\<rparr>) 1 = Inl ZeroDivisionError"
    by (simp add: alpha_def age_fl_def py_int_def fadeAlpha_spec_def age_def q_example_def
        Let_def double_round_half double_round_255_half)
  have "double_round (5 / 4 - 1 / 2 ^ 60) = 5 / 4"
    using double_round_ulp [of "5 / 4 - 1 / 2 ^ 60" 52] by (simp add: round_even_def)
  then have b: "\<not> is_alive_fl double_round q_tiny (5 / 4)"
    by (simp add: is_alive_fl_def age_fl_def q_tiny_def)
  have c: "5 / 4 - spawn_time q_tiny < lifetime q_tiny" by (simp add: q_tiny_def)
  from a b c show ?thesis by blast
qed

text \<open>
  C7, amended. For every rounding of the float operations that is monotone, exact on
  1 and 255 and of relative error at most \<open>eps\<close>, as the rounding of doubles is with
  \<open>eps = 1 / 2 ^ 53\<close>:
  \<^item> \<open>is_alive\<close> at \<open>now\<close> is the test that the rounded difference \<open>now - spawn_time\<close> is
    below the lifetime; a qubit whose exact age has reached its lifetime, a double,
    is not alive;
  \<^item> for a lifetime other than 0, \<open>alpha\<close> returns with no error an integer between 0
    and 255 that differs from 255 times \<open>clamp(1 - age/lifetime, 0, 1)\<close>, in exact
    arithmetic, by less than \<open>1 + 2040 * eps\<close>; for a lifetime of 0 it raises
    \<open>ZeroDivisionError\<close>;
  \<^item> for a positive lifetime, \<open>alpha\<close> is 255 up to the spawn time, 0 from the end of a
    lifetime that is a double, and never grows with \<open>now\<close>.
  The queries are functions of the qubit and \<open>now\<close> alone.
\<close>

theorem qubit_queries:
  assumes "float_rounding eps rnd"
  shows "is_alive_fl rnd q now = (rnd (now - spawn_time q) < lifetime q) \<and>
   (rnd (lifetime q) = lifetime q \<and> lifetime q \<le> now - spawn_time q \<longrightarrow>
      \<not> is_alive_fl rnd q now) \<and>
   (lifetime q \<noteq> 0 \<longrightarrow>
      (\<exists>n. alpha rnd q now = Inr n \<and> 0 \<le> n \<and> n \<le> 255 \<and>
           \<bar>of_int n - 255 * fadeAlpha_spec q now\<bar> < 1 + 2040 * eps)) \<and>
   (lifetime q = 0 \<longrightarrow> alpha rnd q now = Inl ZeroDivisionError) \<and>
   (0 < lifetime q \<and> now - spawn_time q \<le> 0 \<longrightarrow> alpha rnd q now = Inr 255) \<and>
   (0 < lifetime q \<and> rnd (lifetime q) = lifetime q \<and> lifetime q \<le> now - spawn_time q \<longrightarrow>
      alpha rnd q now = Inr 0) \<and>
   (0 < lifetime q \<and> now \<le> now' \<longrightarrow>
      (\<exists>n n'. alpha rnd q now = Inr n \<and> alpha rnd q now' = Inr n' \<and> n' \<le> n))"
proof -
  have a: "is_alive_fl rnd q now = (rnd (now - spawn_time q) < lifetime q)"
    by (simp add: is_alive_fl_def age_fl_def)
  have b: "\<not> is_alive_fl rnd q now"
    if "rnd (lifetime q) = lifetime q" and "lifetime q \<le> now - spawn_time q"
  proof -
    from that(2) have "rnd (lifetime q) \<le> rnd (now - spawn_time q)"
      by (rule float_rounding_mono [OF assms])
    with that(1) show ?thesis by (simp add: is_alive_fl_def age_fl_def)
  qed
  have c: "\<exists>n. alpha rnd q now = Inr n \<and> 0 \<le> n \<and> n \<le> 255 \<and>
           \<bar>of_int n - 255 * fadeAlpha_spec q now\<bar> < 1 + 2040 * eps"
    if "lifetime q \<noteq> 0"
  proof -
    define m where "m = alpha_scaled rnd q now"
    have v: "alpha rnd q now = Inr \<lfloor>m\<rfloor>"
      unfolding m_def using assms that by (rule alpha_value)
    have r: "0 \<le> m" "m \<le> 255"
      using alpha_scaled_range [OF assms, of q now] by (simp_all add: m_def)
    have cl: "\<bar>m - 255 * fadeAlpha_spec q now\<bar> \<le> 2040 * eps"
      unfolding m_def using assms that by (rule alpha_scaled_close)
    from r have n: "0 \<le> \<lfloor>m\<rfloor>" "\<lfloor>m\<rfloor> \<le> 255" by (simp_all add: floor_le_iff)
    have "of_int \<lfloor>m\<rfloor> \<le> m" "m < of_int \<lfloor>m\<rfloor> + 1" by linarith+
    with cl have "\<bar>of_int \<lfloor>m\<rfloor> - 255 * fadeAlpha_spec q now\<bar> < 1 + 2040 * eps"
      by linarith
    with v n show ?thesis by blast
  qed
  have z: "alpha rnd q now = Inl ZeroDivisionError" if "lifetime q = 0"
    using that by (simp add: alpha_def)
  have d: "alpha rnd q now = Inr 255" if "0 < lifetime q" and "now - spawn_time q \<le> 0"
    using alpha_value [OF assms, of q now] alpha_scaled_full [OF assms that] that(1) by simp
  have e: "alpha rnd q now = Inr 0"
    if "0 < lifetime q" and "rnd (lifetime q) = lifetime q"
      and "lifetime q \<le> now - spawn_time q"
    using alpha_value [OF assms, of q now] alpha_scaled_none [OF assms that] that(1) by simp
  have f: "\<exists>n n'. alpha rnd q now = Inr n \<and> alpha rnd q now' = Inr n' \<and> n' \<le> n"
    if "0 < lifetime q" and "now \<le> now'"
  proof -
    from that(1) have "alpha rnd q now = Inr \<lfloor>alpha_scaled rnd q now\<rfloor>"
      "alpha rnd q now' = Inr \<lfloor>alpha_scaled rnd q now'\<rfloor>"
      using alpha_value [OF assms] by simp_all
    moreover have "\<lfloor>alpha_scaled rnd q now'\<rfloor> \<le> \<lfloor>alpha_scaled rnd q now\<rfloor>"
      using alpha_scaled_decays [OF assms that] by (rule floor_mono)
    ultimately show ?thesis by blast
  qed
  from a b c z d e f show ?thesis by blast
qed

text \<open>With the rounding of doubles, the qubit spawned at time 0 with lifetime 5 is alive
  at time 4 and its \<open>alpha\<close> there is 50, where 255 times the exact clamp is 51: the
  float subtraction \<open>1.0 - 0.8\<close> gives a number below 0.2. Its \<open>alpha\<close> is 255 at time
  0 and 0 at time 5, when it is no longer alive; with lifetime 0 it raises the error.\<close>

theorem qubit_queries_witness:
  "float_rounding (1 / 2 ^ 53) double_round \<and>
   lifetime q_slow \<noteq> 0 \<and> 0 < lifetime q_slow \<and>
   double_round (lifetime q_slow) = lifetime q_slow \<and>
   is_alive_fl double_round q_slow 4 \<and>
   alpha double_round q_slow 4 = Inr 50 \<and> 255 * fadeAlpha_spec q_slow 4 = 51 \<and>
   \<bar>real_of_int 50 - 255 * fadeAlpha_spec q_slow 4\<bar> < 1 + 2040 * (1 / 2 ^ 53) \<and>
   0 - spawn_time q_slow \<le> 0 \<and> alpha double_round q_slow 0 = Inr 255 \<and>
   lifetime q_slow \<le> 5 - spawn_time q_slow \<and> \<not> is_alive_fl double_round q_slow 5 \<and>
   alpha double_round q_slow 5 = Inr 0 \<and>
   lifetime (q_slow\<lparr>lifetime := 0\<rparr>) = 0 \<and>
   alpha double_round (q_slow\<lparr>lifetime := 0\<rparr>) 4 = Inl ZeroDivisionError"
proof -
  note fr = float_rounding_double
  have l: "lifetime q_slow \<noteq> 0" "0 < lifetime q_slow"
    "double_round (lifetime q_slow) = lifetime q_slow"
    "0 - spawn_time q_slow \<le> 0" "lifetime q_slow \<le> 5 - spawn_time q_slow"
    using double_round_ulp [of 5 50] by (simp_all add: q_slow_def)
  have al: "is_alive_fl double_round q_slow 4"
    by (simp add: is_alive_fl_def age_fl_def q_slow_def double_round_4)
  have v: "alpha double_round q_slow 4 = Inr 50"
  proof -
    have 1: "(4::real) - 0 = 4" "((5::real) = 0) = False" by simp_all
    have 2: "max 0 (min 1 (7205759403792794 / 2 ^ 53 :: real)) = 7205759403792794 / 2 ^ 53"
      by simp
    have 3: "py_int (7177611906121726 / 2 ^ 47) = 50" by (simp add: py_int_def)
    show ?thesis
      unfolding alpha_def age_fl_def q_slow_def Let_def
      by (simp only: Qubit.simps 1 2 3 if_False double_round_4 double_round_4_5
          double_round_1_5 double_round_51)
  qed
  have s: "255 * fadeAlpha_spec q_slow 4 = 51"
    by (simp add: fadeAlpha_spec_def age_def q_slow_def)
  from qubit_queries [OF fr, of q_slow 4 4] l(1) v
  have cl: "\<bar>real_of_int 50 - 255 * fadeAlpha_spec q_slow 4\<bar> < 1 + 2040 * (1 / 2 ^ 53)"
    by auto
  from qubit_queries [OF fr, of q_slow 0 0] l
  have full: "alpha double_round q_slow 0 = Inr 255" by blast
  from qubit_queries [OF fr, of q_slow 5 5] l
  have none: "\<not> is_alive_fl double_round q_slow 5" "alpha double_round q_slow 5 = Inr 0"
    by blast+
  have z0: "lifetime (q_slow\<lparr>lifetime := 0\<rparr>) = 0" by simp
  from qubit_queries [OF fr, of "q_slow\<lparr>lifetime := 0\<rparr>" 4 4] z0
  have z: "alpha double_round (q_slow\<lparr>lifetime := 0\<rparr>) 4 = Inl ZeroDivisionError"
    by blast
  from fr l al v s cl full none z0 z show ?thesis by simp
qed

subsection \<open>C8: reset\<close>

text \<open>
  C8. From any state, \<open>reset\<close> gives a state whose phase is Playing, whose list of
  qubits is empty and whose player stands on the start tile; the start time is the time
  of the call, the next spawn time is that time plus the drawn interval, the game is
  not paused, and the start and goal tiles are as before.
\<close>

theorem reset_state:
  "phase (reset g now u) = Some Playing \<and>
   qubits (reset g now u) = [] \<and>
   player (reset g now u) = start g \<and>
   start_time (reset g now u) = now \<and>
   next_spawn_time (reset g now u) = now + u \<and>
   \<not> pause (reset g now u) \<and>
   start (reset g now u) = start g \<and> goal (reset g now u) = goal g"
  by (simp add: reset_def phase_def)

subsection \<open>C9: the three flags\<close>

text \<open>
  C9. In every reachable state \<open>win\<close> and \<open>lose\<close> are not both set, and \<open>running\<close> is
  set exactly when neither of them is; so the phase is one of Playing, Won and Lost.
\<close>

theorem flags_consistent:
  "reachable g \<longrightarrow>
     \<not> (win g \<and> lose g) \<and> (running g \<longleftrightarrow> \<not> win g \<and> \<not> lose g) \<and>
     phase g \<in> {Some Playing, Some Won, Some Lost}"
  using reachable_flags [of g] by (auto simp: phase_def)

theorem flags_consistent_witness:
  "reachable g_moved \<and>
   \<not> (win g_moved \<and> lose g_moved) \<and>
   (running g_moved \<longleftrightarrow> \<not> win g_moved \<and> \<not> lose g_moved) \<and>
   phase g_moved = Some Playing"
proof -
  have "phase g_moved = Some Playing" by (simp add: g_moved_eq phase_def)
  with flags_consistent [of g_moved] reachable_g_moved show ?thesis by simp
qed

subsection \<open>C10: what update leaves alone, and what moves the player\<close>

text \<open>
  C10, as the specification states it, ends: the player token moves only through
  \<open>try_move\<close>. \<open>reset\<close> moves it too: from tile (1, 9) it puts the player back on the
  start tile (0, 9).
\<close>

theorem reset_moves_player:
  "player g_moved = (1, 9) \<and> player (reset g_moved 2 (1 / 2)) = (0, 9)"
  by (simp add: g_moved_eq reset_def)

text \<open>
  C10, amended. \<open>update\<close> leaves the player's position, the start tile, the goal tile
  and the start time as they are: the state it returns differs from its argument at
  most in the list of qubits, the next spawn time and the flags \<open>running\<close> and \<open>lose\<close>.
  The \<open>spawn_qubit\<close> it calls changes at most the list of qubits. The player moves
  only through \<open>try_move\<close>, which leaves it in place or puts it on the destination, and
  through \<open>reset\<close>, which puts it on the start tile.
\<close>

theorem update_frame_effect:
  "player (update g now draws u) = player g \<and>
   start (update g now draws u) = start g \<and>
   goal (update g now draws u) = goal g \<and>
   start_time (update g now draws u) = start_time g \<and>
   update g now draws u =
     g\<lparr>qubits := qubits (update g now draws u),
       next_spawn_time := next_spawn_time (update g now draws u),
       running := running (update g now draws u),
       lose := lose (update g now draws u)\<rparr> \<and>
   spawn_qubit draws g now = g\<lparr>qubits := qubits (spawn_qubit draws g now)\<rparr> \<and>
   (player (try_move g dx dy now') = player g \<or>
    player (try_move g dx dy now') = (fst (player g) + dx, snd (player g) + dy)) \<and>
   player (reset g now' u') = start g"
proof -
  have "update g now draws u =
     g\<lparr>qubits := qubits (update g now draws u),
       next_spawn_time := next_spawn_time (update g now draws u),
       running := running (update g now draws u),
       lose := lose (update g now draws u)\<rparr>"
    by (rule Game.equality) (simp_all add: update_fields)
  moreover have "spawn_qubit draws g now = g\<lparr>qubits := qubits (spawn_qubit draws g now)\<rparr>"
    using spawn_qubit_frame [of draws g now] by auto
  moreover have "player (try_move g dx dy now') = player g \<or>
      player (try_move g dx dy now') = (fst (player g) + dx, snd (player g) + dy)"
    using try_move_player [of g dx dy now'] by blast
  moreover have "player (reset g now' u') = start g" by (simp add: reset_def)
  ultimately show ?thesis by (simp add: update_fields)
qed

end
